theory Spec2Isabelle
  imports Main
begin

section \<open>Data model of Exscript.workqueue.MainLoop\<close>

text \<open>
  The exceptions the scheduler can raise: a failed \<^verbatim>\<open>assert\<close> and the lookup of a
  name that is bound neither in the module nor among the builtins.
\<close>

datatype error = AssertionError | NameError string

text \<open>
  Modelled from the spec: the Action class is an external collaborator. The scheduler
  reads its \<^verbatim>\<open>name\<close> (which \<^verbatim>\<open>get_first_job_from_name\<close> allows to be None), calls its
  \<^verbatim>\<open>__hash__()\<close> and compares it with \<^verbatim>\<open>==\<close> / \<^verbatim>\<open>in\<close>. The field \<open>a_id\<close> is the
  object identity, so that two distinct Action objects may share name and hash.
\<close>

record action =
  a_id :: nat
  a_name :: "string option"
  a_hash :: int

text \<open>
  Modelled from the spec: the Job class (Exscript.workqueue.Job) is imported but not part
  of the sources. A Job binds one Action to a retry budget \<open>times\<close>, counts its
  \<open>failures\<close> (starting at 0), caches the Action's name, records the failure
  information of its attempt in \<open>exc_info\<close> (None while pending or after success) and
  runs on its own thread, whose liveness is \<open>is_alive()\<close>.
\<close>

record job =
  j_action :: action
  j_name :: "string option"
  j_times :: int
  j_failures :: int
  j_exc_info :: "string option"
  j_alive :: bool

text \<open>The five Event objects are external; firing one is recorded in a log.\<close>

datatype event =
    JobStarted action
  | JobError action string
  | JobSucceeded action
  | JobAborted action
  | QueueEmpty

record mainloop =
  queue :: "job list"
  force_start :: "job list"
  running_jobs :: "job list"
  sleeping_actions :: "action list"
  paused :: bool
  shutdown_now :: bool
  max_threads :: int
  events :: "event list"

type_synonym 'a result = "(error \<times> mainloop) + 'a"

text \<open>\<^verbatim>\<open>MainLoop.__init__\<close>\<close>

definition MainLoop_init :: mainloop where
  "MainLoop_init = \<lparr> queue = [], force_start = [], running_jobs = [],
     sleeping_actions = [], paused = True, shutdown_now = False, max_threads = 1,
     events = [] \<rparr>"

definition fire :: "event \<Rightarrow> mainloop \<Rightarrow> mainloop" where
  "fire e s = s\<lparr>events := events s @ [e]\<rparr>"

section \<open>Queries\<close>

definition all_jobs :: "mainloop \<Rightarrow> job list" where
  \<comment> \<open>\<^verbatim>\<open>chain(self.queue, self.force_start, self.running_jobs)\<close>\<close>
  "all_jobs s = queue s @ force_start s @ running_jobs s"

definition get_running_actions :: "mainloop \<Rightarrow> action list" where
  "get_running_actions s = map j_action (running_jobs s)"

definition in_progress :: "mainloop \<Rightarrow> action \<Rightarrow> bool" where
  "in_progress s a = (a \<in> set (get_running_actions s))"

definition in_queue :: "mainloop \<Rightarrow> action \<Rightarrow> bool" where
  "in_queue s a = (a \<in> set (map j_action (all_jobs s)))"

definition get_queue_length :: "mainloop \<Rightarrow> nat" where
  "get_queue_length s = length (queue s) + length (force_start s) + length (running_jobs s)"

definition get_first_job_from_name :: "mainloop \<Rightarrow> string option \<Rightarrow> job option" where
  "get_first_job_from_name s job_name =
     (if job_name = None then None
      else find (\<lambda>j. j_name j = job_name) (all_jobs s))"

definition get_action_from_hash :: "mainloop \<Rightarrow> int \<Rightarrow> action option" where
  "get_action_from_hash s thehash =
     map_option j_action (find (\<lambda>j. a_hash (j_action j) = thehash) (all_jobs s))"

definition get_max_threads :: "mainloop \<Rightarrow> int" where
  "get_max_threads s = max_threads s"

definition is_paused :: "mainloop \<Rightarrow> bool" where
  "is_paused s = paused s"

section \<open>Cooperative sleep and the concurrency limit\<close>

definition action_sleep_notify :: "action \<Rightarrow> mainloop \<Rightarrow> mainloop result" where
  "action_sleep_notify a s =
     (if \<not> in_progress s a then Inl (AssertionError, s)
      else Inr (s\<lparr>sleeping_actions := sleeping_actions s @ [a]\<rparr>))"

definition action_wake_notify :: "action \<Rightarrow> mainloop \<Rightarrow> mainloop result" where
  "action_wake_notify a s =
     (if \<not> in_progress s a then Inl (AssertionError, s)
      else if a \<notin> set (sleeping_actions s) then Inl (AssertionError, s)
      else Inr (s\<lparr>sleeping_actions := remove1 a (sleeping_actions s)\<rparr>))"

text \<open>
  \<^verbatim>\<open>set_max_threads\<close>: the argument is None or an integer; the only check is
  \<^verbatim>\<open>assert max_threads is not None\<close>.
\<close>

definition set_max_threads :: "int option \<Rightarrow> mainloop \<Rightarrow> mainloop result" where
  "set_max_threads n s =
     (case n of
        None \<Rightarrow> Inl (AssertionError, s)
      | Some v \<Rightarrow> Inr (s\<lparr>max_threads := v\<rparr>))"

section \<open>Admission\<close>

text \<open>
  Modelled from the spec: the constructor of the absent Job class,
  \<^verbatim>\<open>Job(condition, action, name)\<close>: no failures yet, no outcome, thread not started.
\<close>

definition Job_init :: "action \<Rightarrow> string option \<Rightarrow> job" where
  "Job_init a n = \<lparr> j_action = a, j_name = n, j_times = 1, j_failures = 0,
     j_exc_info = None, j_alive = False \<rparr>"

definition create_job :: "action \<Rightarrow> int \<Rightarrow> job" where
  "create_job a tms = (Job_init a (a_name a))\<lparr>j_times := tms\<rparr>"

definition enqueue :: "action \<Rightarrow> int \<Rightarrow> mainloop \<Rightarrow> mainloop" where
  "enqueue a tms s = s\<lparr>queue := queue s @ [create_job a tms]\<rparr>"

definition enqueue_or_ignore :: "action \<Rightarrow> int \<Rightarrow> mainloop \<Rightarrow> mainloop \<times> bool" where
  "enqueue_or_ignore a tms s =
     (if get_first_job_from_name s (a_name a) = None
      then (s\<lparr>queue := queue s @ [create_job a tms]\<rparr>, True)
      else (s, False))"

definition priority_enqueue :: "action \<Rightarrow> bool \<Rightarrow> int \<Rightarrow> mainloop \<Rightarrow> mainloop" where
  "priority_enqueue a force tms s =
     (let job = create_job a tms
      in if force then s\<lparr>force_start := force_start s @ [job]\<rparr>
         else s\<lparr>queue := job # queue s\<rparr>)"

text \<open>
  In \<^verbatim>\<open>priority_enqueue_or_raise\<close> the search of the queue stops at the first job with
  the action's name; a Job object is truthy, so \<^verbatim>\<open>if existing:\<close> holds exactly when one
  was found, and \<^verbatim>\<open>self.queue.remove(existing)\<close> removes its first occurrence.
\<close>

definition priority_enqueue_or_raise ::
  "action \<Rightarrow> bool \<Rightarrow> int \<Rightarrow> mainloop \<Rightarrow> mainloop \<times> bool" where
  "priority_enqueue_or_raise a force tms s =
     (if \<exists>j \<in> set (force_start s @ running_jobs s). j_name j = a_name a
      then (s, False)
      else
        let existing = find (\<lambda>j. j_name j = a_name a) (queue s);
            q = (case existing of None \<Rightarrow> queue s | Some e \<Rightarrow> remove1 e (queue s));
            a' = (case existing of None \<Rightarrow> a | Some e \<Rightarrow> j_action e);
            job = create_job a' tms
        in (if force then s\<lparr>queue := q, force_start := force_start s @ [job]\<rparr>
            else s\<lparr>queue := job # q\<rparr>,
            existing = None))"

definition pause :: "mainloop \<Rightarrow> mainloop" where
  "pause s = s\<lparr>paused := True\<rparr>"

definition resume :: "mainloop \<Rightarrow> mainloop" where
  "resume s = s\<lparr>paused := False\<rparr>"

section \<open>Starting, completing and reaping jobs\<close>

definition start_job :: "job \<Rightarrow> mainloop \<Rightarrow> mainloop" where
  \<comment> \<open>append to \<^verbatim>\<open>running_jobs\<close>, fire job-started, \<^verbatim>\<open>job.start()\<close>\<close>
  "start_job job s =
     fire (JobStarted (j_action job))
       (s\<lparr>running_jobs := running_jobs s @ [job\<lparr>j_alive := True\<rparr>]\<rparr>)"

text \<open>
  The names bound at module level of MainLoop.py: its imports (lines 15 to 20) and the
  class itself. \<^verbatim>\<open>copy\<close> is not among them, and it is not a builtin of Python 2.
\<close>

definition module_globals :: "string list" where
  "module_globals = [''threading'', ''gc'', ''chain'', ''defaultdict'', ''deque'',
     ''Event'', ''Job'', ''MainLoop'']"

text \<open>
  Modelled from the spec: what copying a Job yields (the absent Job class defines it): a
  fresh Job with the same Action, \<open>times\<close> and accumulated \<open>failures\<close>.
\<close>

definition copy_job :: "job \<Rightarrow> job" where
  "copy_job j = (Job_init (j_action j) (j_name j))
     \<lparr>j_times := j_times j, j_failures := j_failures j\<rparr>"

definition restart_job :: "job \<Rightarrow> mainloop \<Rightarrow> mainloop result" where
  \<comment> \<open>\<^verbatim>\<open>self._start_job(copy(job))\<close>: the argument is evaluated first\<close>
  "restart_job job s =
     (if ''copy'' \<in> set module_globals then Inr (start_job (copy_job job) s)
      else Inl (NameError ''copy'', s))"

definition on_job_completed :: "job \<Rightarrow> mainloop \<Rightarrow> mainloop result" where
  "on_job_completed job s =
     (case j_exc_info job of
        Some info \<Rightarrow>
          (let s1 = fire (JobError (j_action job) info) s
           in if j_failures job \<ge> j_times job
              then Inr (fire (JobAborted (j_action job)) s1)
              else restart_job job s1)
      | None \<Rightarrow> Inr (fire (JobSucceeded (j_action job)) s))"

fun complete_all :: "job list \<Rightarrow> mainloop \<Rightarrow> mainloop result" where
  \<comment> \<open>\<^verbatim>\<open>for job in completed: self._on_job_completed(job)\<close>\<close>
  "complete_all [] s = Inr s"
| "complete_all (j # js) s =
     (case on_job_completed j s of
        Inl e \<Rightarrow> Inl e
      | Inr s' \<Rightarrow> complete_all js s')"

definition update_running_jobs :: "mainloop \<Rightarrow> mainloop result" where
  "update_running_jobs s =
     (let running = filter j_alive (running_jobs s);
          completed = filter (\<lambda>j. \<not> j_alive j) (running_jobs s)
      in complete_all completed (s\<lparr>running_jobs := running\<rparr>))"

section \<open>The coordinator loop\<close>

text \<open>
  One pass through the body of the \<^verbatim>\<open>while not self.shutdown_now\<close> loop of \<^verbatim>\<open>run\<close>.
  The coordinator holds the condition's lock from the top of the loop until it either
  blocks in \<^verbatim>\<open>condition.wait()\<close> (and then continues with the next pass) or has started
  the head of the queue, so a pass is one atomic step on the monitor state. The outcome
  says how the pass ended: the loop test failed, the pass blocked, or it admitted a job.
\<close>

datatype outcome = Exited | Waiting | Admitted job

definition active :: "mainloop \<Rightarrow> int" where
  "active s = int (length (running_jobs s)) - int (length (sleeping_actions s))"

definition run_iteration :: "mainloop \<Rightarrow> (outcome \<times> mainloop) result" where
  "run_iteration s =
     (if shutdown_now s then Inr (Exited, s)
      else case update_running_jobs s of
        Inl e \<Rightarrow> Inl e
      | Inr s1 \<Rightarrow>
          let s2 = (if get_queue_length s1 = 0 then fire QueueEmpty s1 else s1);
              s3 = fold start_job (force_start s2) s2;
              s4 = s3\<lparr>force_start := []\<rparr>
          in if length (queue s4) \<le> 0 \<or> paused s4 then Inr (Waiting, s4)
             else if active s4 \<ge> max_threads s4 then Inr (Waiting, s4)
             else (case queue s4 of
                     [] \<Rightarrow> Inr (Waiting, s4)
                   | job # rest \<Rightarrow> Inr (Admitted job, start_job job (s4\<lparr>queue := rest\<rparr>))))"

section \<open>Shutdown and the blocking waits\<close>

text \<open>
  \<^verbatim>\<open>shutdown\<close> sets the flag and then joins every job of \<^verbatim>\<open>running_jobs\<close>; the model
  returns the new state together with the jobs it joins before it returns.
\<close>

definition shutdown :: "mainloop \<Rightarrow> mainloop \<times> job list" where
  "shutdown s = (s\<lparr>shutdown_now := True\<rparr>, running_jobs s)"

text \<open>
  A blocking wait is \<^verbatim>\<open>while pred: self.condition.wait()\<close>. The waiter tests the
  predicate on the state at the call and again on the state it finds after each wake-up;
  \<open>obs\<close> lists the states found after the successive wake-ups. The result is
  \<open>Some n\<close> when the call returns after \<open>n\<close> wake-ups, and None when the caller is
  still blocked after all of them.
\<close>

fun wait_while :: "(mainloop \<Rightarrow> bool) \<Rightarrow> mainloop \<Rightarrow> mainloop list \<Rightarrow> nat option" where
  "wait_while p s [] = (if p s then None else Some 0)"
| "wait_while p s (s' # obs) =
     (if p s then map_option Suc (wait_while p s' obs) else Some 0)"

definition wait_until_done :: "mainloop \<Rightarrow> mainloop list \<Rightarrow> nat option" where
  "wait_until_done s obs = wait_while (\<lambda>t. get_queue_length t > 0) s obs"

text \<open>The argument of \<^verbatim>\<open>wait_for\<close>: an integer (\<^verbatim>\<open>isinstance(action, int)\<close>) or an Action.\<close>

datatype wait_arg = ByHash int | ByAction action

definition wait_for :: "wait_arg \<Rightarrow> mainloop \<Rightarrow> mainloop list \<Rightarrow> nat option" where
  "wait_for x s obs =
     (case x of
        ByHash h \<Rightarrow>
          (case get_action_from_hash s h of
             None \<Rightarrow> Some 0
           | Some a \<Rightarrow> wait_while (\<lambda>t. in_queue t a) s obs)
      | ByAction a \<Rightarrow> wait_while (\<lambda>t. in_queue t a) s obs)"

section \<open>Interleavings\<close>

text \<open>
  Modelled from the spec: the end of a Job's thread (the \<^verbatim>\<open>run\<close> method of the absent Job
  class). The thread of the \<open>i\<close>-th running job ends, with failure information or
  without; a failure increments \<open>failures\<close>.
\<close>

definition job_ends :: "nat \<Rightarrow> string option \<Rightarrow> mainloop \<Rightarrow> mainloop" where
  "job_ends i exc s =
     (if i < length (running_jobs s) \<and> j_alive (running_jobs s ! i)
      then
        let j = running_jobs s ! i;
            j' = j\<lparr>j_alive := False, j_exc_info := exc,
                   j_failures := (if exc = None then j_failures j else j_failures j + 1)\<rparr>
        in s\<lparr>running_jobs := (running_jobs s)[i := j']\<rparr>
      else s)"

text \<open>
  Every section that runs under the lock is one step. A run of the system is a list of
  steps; it stops at the first exception, keeping the state in which it was raised.
\<close>

datatype step =
    Enqueue action int
  | EnqueueOrIgnore action int
  | PriorityEnqueue action bool int
  | PriorityEnqueueOrRaise action bool int
  | Pause
  | Resume
  | SetMaxThreads "int option"
  | SleepNotify action
  | WakeNotify action
  | Shutdown
  | JobEnds nat "string option"
  | Iterate

fun apply_step :: "step \<Rightarrow> mainloop \<Rightarrow> mainloop result" where
  "apply_step (Enqueue a t) s = Inr (enqueue a t s)"
| "apply_step (EnqueueOrIgnore a t) s = Inr (fst (enqueue_or_ignore a t s))"
| "apply_step (PriorityEnqueue a f t) s = Inr (priority_enqueue a f t s)"
| "apply_step (PriorityEnqueueOrRaise a f t) s = Inr (fst (priority_enqueue_or_raise a f t s))"
| "apply_step Pause s = Inr (pause s)"
| "apply_step Resume s = Inr (resume s)"
| "apply_step (SetMaxThreads n) s = set_max_threads n s"
| "apply_step (SleepNotify a) s = action_sleep_notify a s"
| "apply_step (WakeNotify a) s = action_wake_notify a s"
| "apply_step Shutdown s = Inr (fst (shutdown s))"
| "apply_step (JobEnds i exc) s = Inr (job_ends i exc s)"
| "apply_step Iterate s = map_sum id snd (run_iteration s)"

fun exec :: "step list \<Rightarrow> mainloop \<Rightarrow> mainloop result" where
  "exec [] s = Inr s"
| "exec (x # xs) s =
     (case apply_step x s of
        Inl e \<Rightarrow> Inl e
      | Inr s' \<Rightarrow> exec xs s')"

definition state_of :: "mainloop result \<Rightarrow> mainloop" where
  "state_of r = (case r of Inl (e, s) \<Rightarrow> s | Inr s \<Rightarrow> s)"

section \<open>Example actions, states and runs\<close>

text \<open>
  Steps that leave the concurrency gate alone: no force-start, no change of the limit and
  no wake-up of a sleeping action.
\<close>

fun keeps_limit :: "step \<Rightarrow> bool" where
  "keeps_limit (PriorityEnqueue a f t) = (\<not> f)"
| "keeps_limit (PriorityEnqueueOrRaise a f t) = (\<not> f)"
| "keeps_limit (SetMaxThreads n) = False"
| "keeps_limit (WakeNotify a) = False"
| "keeps_limit _ = True"

definition act_A :: action where
  "act_A = \<lparr> a_id = 1, a_name = Some ''A'', a_hash = 101 \<rparr>"

definition act_B :: action where
  "act_B = \<lparr> a_id = 2, a_name = Some ''B'', a_hash = 102 \<rparr>"

definition act_A2 :: action where
  "act_A2 = \<lparr> a_id = 3, a_name = Some ''A'', a_hash = 103 \<rparr>"

definition act_N :: action where
  "act_N = \<lparr> a_id = 4, a_name = None, a_hash = 104 \<rparr>"

definition st_running_A :: mainloop where
  "st_running_A = state_of (exec [Resume, Enqueue act_A 1, Iterate] MainLoop_init)"

definition st_queued_BA :: mainloop where
  "st_queued_BA = enqueue act_A 1 (enqueue act_B 1 MainLoop_init)"

definition st_queued_A :: mainloop where
  "st_queued_A = enqueue act_A 1 MainLoop_init"

definition st_queued_N :: mainloop where
  "st_queued_N = fst (enqueue_or_ignore act_N 1 MainLoop_init)"

definition st_paused_AB :: mainloop where
  "st_paused_AB = priority_enqueue act_B True 1 (enqueue act_A 1 MainLoop_init)"

definition wake_trace :: "step list" where
  "wake_trace = [Resume, Enqueue act_A 1, Enqueue act_B 1, Iterate, SleepNotify act_A,
     Iterate, WakeNotify act_A]"

definition sleep_trace :: "step list" where
  "sleep_trace = [Resume, Enqueue act_A 1, Enqueue act_B 1, Iterate, SleepNotify act_A,
     Iterate, JobEnds 0 None, Iterate]"

definition retry_trace :: "step list" where
  "retry_trace = [Resume, Enqueue act_A 2, Iterate, JobEnds 0 (Some ''boom''), Iterate]"

definition double_sleep_trace :: "step list" where
  "double_sleep_trace = [Resume, Enqueue act_A 1, Iterate, SleepNotify act_A,
     SleepNotify act_A, WakeNotify act_A]"

section \<open>Auxiliary facts\<close>

lemma in_progress_iff: "in_progress s a \<longleftrightarrow> (\<exists>j\<in>set (running_jobs s). j_action j = a)"
  by (auto simp: in_progress_def get_running_actions_def)

lemma in_queue_iff:
  "in_queue s a \<longleftrightarrow>
     (\<exists>j\<in>set (queue s) \<union> set (force_start s) \<union> set (running_jobs s). j_action j = a)"
  by (auto simp: in_queue_def all_jobs_def)

lemma count_list_remove1:
  "a \<in> set xs \<Longrightarrow> count_list (remove1 a xs) a + 1 = count_list xs a"
  by (induction xs) auto

lemma create_job_fields [simp]:
  "j_action (create_job a t) = a"
  "j_name (create_job a t) = a_name a"
  "j_times (create_job a t) = t"
  "j_failures (create_job a t) = 0"
  "j_exc_info (create_job a t) = None"
  "\<not> j_alive (create_job a t)"
  by (simp_all add: create_job_def Job_init_def)

lemma wait_while_Some_iff:
  "wait_while p s obs = Some n \<longleftrightarrow>
     n \<le> length obs \<and> \<not> p ((s # obs) ! n) \<and> (\<forall>i<n. p ((s # obs) ! i))"
proof (induction p s obs arbitrary: n rule: wait_while.induct)
  case (1 p s)
  then show ?case by auto
next
  case (2 p s s' obs)
  show ?case
  proof (cases "p s")
    case False
    then show ?thesis by (cases n) auto
  next
    case True
    show ?thesis
    proof (cases n)
      case 0
      with True show ?thesis by simp
    next
      case (Suc m)
      have "(\<forall>i<Suc m. p ((s # s' # obs) ! i)) \<longleftrightarrow> (\<forall>i<m. p ((s' # obs) ! i))"
        using True by (auto simp: less_Suc_eq_0_disj)
      with True Suc 2[OF True, of m] show ?thesis by auto
    qed
  qed
qed

lemma find_first_split:
  "\<forall>j\<in>set pre. \<not> P j \<Longrightarrow> P e \<Longrightarrow> find P (pre @ e # post) = Some e"
  by (induction pre) auto

lemma find_None_iff_all: "find P xs = None \<longleftrightarrow> (\<forall>x\<in>set xs. \<not> P x)"
  by (induction xs) auto

lemma remove1_first_split: "e \<notin> set pre \<Longrightarrow> remove1 e (pre @ e # post) = pre @ post"
  by (induction pre) auto

lemma fold_start_job:
  "fold start_job js s =
     s\<lparr>running_jobs := running_jobs s @ map (\<lambda>j. j\<lparr>j_alive := True\<rparr>) js,
       events := events s @ map (\<lambda>j. JobStarted (j_action j)) js\<rparr>"
  by (induction js arbitrary: s) (auto simp: start_job_def fire_def)

lemma on_job_completed_state:
  "\<exists>ev. state_of (on_job_completed j s) = s\<lparr>events := ev\<rparr>"
  by (auto simp: on_job_completed_def restart_job_def module_globals_def state_of_def
      fire_def Let_def split: option.splits)

lemma complete_all_state:
  "\<exists>ev. state_of (complete_all js s) = s\<lparr>events := ev\<rparr>"
proof (induction js arbitrary: s)
  case Nil
  have "s = s\<lparr>events := events s\<rparr>" by simp
  then show ?case unfolding complete_all.simps state_of_def by (metis sum.case(2))
next
  case (Cons j js)
  obtain ev where ev: "state_of (on_job_completed j s) = s\<lparr>events := ev\<rparr>"
    using on_job_completed_state by blast
  show ?case
  proof (cases "on_job_completed j s")
    case (Inl e)
    with ev show ?thesis by (auto simp: state_of_def)
  next
    case (Inr s')
    with ev have s': "s' = s\<lparr>events := ev\<rparr>" by (simp add: state_of_def)
    from Cons.IH[of s'] obtain ev' where "state_of (complete_all js s') = s'\<lparr>events := ev'\<rparr>"
      by blast
    with Inr s' show ?thesis by auto
  qed
qed

lemma update_running_jobs_state:
  "\<exists>ev. state_of (update_running_jobs s) =
     s\<lparr>running_jobs := filter j_alive (running_jobs s), events := ev\<rparr>"
proof -
  obtain ev where "state_of (complete_all (filter (\<lambda>j. \<not> j_alive j) (running_jobs s))
       (s\<lparr>running_jobs := filter j_alive (running_jobs s)\<rparr>)) =
       (s\<lparr>running_jobs := filter j_alive (running_jobs s)\<rparr>)\<lparr>events := ev\<rparr>"
    using complete_all_state by blast
  then show ?thesis by (auto simp: update_running_jobs_def Let_def)
qed

lemma update_running_jobs_cases:
  obtains (Raised) e ev where
      "update_running_jobs s =
         Inl (e, s\<lparr>running_jobs := filter j_alive (running_jobs s), events := ev\<rparr>)"
    | (Reaped) ev where
      "update_running_jobs s =
         Inr (s\<lparr>running_jobs := filter j_alive (running_jobs s), events := ev\<rparr>)"
proof -
  obtain ev where ev: "state_of (update_running_jobs s) =
     s\<lparr>running_jobs := filter j_alive (running_jobs s), events := ev\<rparr>"
    using update_running_jobs_state by blast
  show thesis
  proof (cases "update_running_jobs s")
    case (Inl p)
    with ev Raised[of "fst p" ev] show ?thesis
      by (cases p) (simp add: state_of_def)
  next
    case (Inr s')
    with ev Reaped[of ev] show ?thesis
      by (simp add: state_of_def)
  qed
qed

lemma exec_preserves:
  assumes step: "\<And>x s. P s \<Longrightarrow> A x \<Longrightarrow> P (state_of (apply_step x s))"
  shows "P s \<Longrightarrow> \<forall>x\<in>set xs. A x \<Longrightarrow> P (state_of (exec xs s))"
proof (induction xs arbitrary: s)
  case Nil
  then show ?case by (simp add: state_of_def)
next
  case (Cons x xs)
  have px: "P (state_of (apply_step x s))"
    using step Cons.prems by simp
  show ?case
  proof (cases "apply_step x s")
    case (Inl e)
    with px show ?thesis by simp
  next
    case (Inr s')
    with px have "P s'" by (simp add: state_of_def)
    with Cons.IH[of s'] Cons.prems(2) Inr show ?thesis by simp
  qed
qed

lemma iterate_shutdown: "shutdown_now s \<Longrightarrow> run_iteration s = Inr (Exited, s)"
  by (simp add: run_iteration_def)

lemma iterate_fixed_fields:
  "paused (state_of (apply_step Iterate s)) = paused s"
  "shutdown_now (state_of (apply_step Iterate s)) = shutdown_now s"
  "max_threads (state_of (apply_step Iterate s)) = max_threads s"
  "sleeping_actions (state_of (apply_step Iterate s)) = sleeping_actions s"
  by (cases s rule: update_running_jobs_cases;
      simp add: run_iteration_def state_of_def Let_def fold_start_job start_job_def fire_def
        split: list.splits)+

lemma job_ends_actions:
  "map j_action (running_jobs (job_ends i exc s)) = map j_action (running_jobs s)"
  by (simp add: job_ends_def Let_def map_update list_update_same_conv)

lemma step_after_shutdown:
  assumes "shutdown_now s"
  shows "shutdown_now (state_of (apply_step x s)) \<and>
         events (state_of (apply_step x s)) = events s \<and>
         map j_action (running_jobs (state_of (apply_step x s))) = map j_action (running_jobs s)"
proof (cases x)
  case (JobEnds i exc)
  have "shutdown_now (job_ends i exc s) \<and> events (job_ends i exc s) = events s"
    using assms by (simp add: job_ends_def Let_def)
  then show ?thesis
    using JobEnds job_ends_actions[of i exc s] by (simp add: state_of_def)
next
  case Iterate
  then show ?thesis
    using assms by (simp add: iterate_shutdown state_of_def)
qed (use assms in \<open>auto simp: state_of_def enqueue_def enqueue_or_ignore_def
    priority_enqueue_def priority_enqueue_or_raise_def pause_def resume_def
    set_max_threads_def action_sleep_notify_def action_wake_notify_def shutdown_def Let_def
    split: option.splits\<close>)

lemma step_keeps_paused:
  assumes "paused s" "x \<noteq> Resume"
  shows "paused (state_of (apply_step x s))"
proof (cases x)
  case Iterate
  then show ?thesis
    using assms iterate_fixed_fields(1)[of s] by simp
qed (use assms in \<open>auto simp: state_of_def enqueue_def enqueue_or_ignore_def
    priority_enqueue_def priority_enqueue_or_raise_def pause_def job_ends_def
    set_max_threads_def action_sleep_notify_def action_wake_notify_def shutdown_def Let_def
    split: option.splits\<close>)

lemma paused_iteration:
  assumes "paused s" "run_iteration s = Inr (oc, s')"
  shows "oc \<noteq> Admitted j \<and> queue s' = queue s \<and>
    (\<not> shutdown_now s \<longrightarrow>
       running_jobs s' = filter j_alive (running_jobs s) @
         map (\<lambda>j. j\<lparr>j_alive := True\<rparr>) (force_start s))"
  using assms
  by (cases s rule: update_running_jobs_cases)
    (auto simp: run_iteration_def Let_def fold_start_job fire_def split: if_splits)

lemma iterate_gate:
  assumes "run_iteration s = Inr (oc, s')"
  shows "case oc of
           Admitted j \<Rightarrow> queue s = j # queue s' \<and> \<not> paused s \<and> active s' \<le> max_threads s'
         | _ \<Rightarrow> queue s' = queue s"
  using assms
  by (cases s rule: update_running_jobs_cases)
    (auto simp: run_iteration_def Let_def fold_start_job fire_def start_job_def active_def
      split: if_splits list.splits)

lemma iterate_keeps_bound:
  assumes "active s \<le> m" "force_start s = []" "max_threads s = m"
  shows "active (state_of (apply_step Iterate s)) \<le> m \<and>
         force_start (state_of (apply_step Iterate s)) = []"
proof -
  have le: "length (filter j_alive (running_jobs s)) \<le> length (running_jobs s)"
    by simp
  show ?thesis
    using assms le
    by (cases s rule: update_running_jobs_cases)
      (auto simp: run_iteration_def Let_def fire_def start_job_def active_def state_of_def
        simp del: length_filter_le split: list.splits)
qed

lemma step_keeps_bound:
  assumes "active s \<le> m \<and> force_start s = [] \<and> max_threads s = m" "keeps_limit x"
  shows "active (state_of (apply_step x s)) \<le> m \<and>
         force_start (state_of (apply_step x s)) = [] \<and>
         max_threads (state_of (apply_step x s)) = m"
proof (cases x)
  case Iterate
  then show ?thesis
    using assms iterate_keeps_bound[of s m] iterate_fixed_fields(3)[of s] by simp
next
  case (PriorityEnqueueOrRaise a f t)
  then show ?thesis
    using assms
    by (auto simp: state_of_def priority_enqueue_or_raise_def Let_def active_def)
qed (use assms in \<open>auto simp: state_of_def enqueue_def enqueue_or_ignore_def
    priority_enqueue_def pause_def resume_def job_ends_def active_def
    action_sleep_notify_def shutdown_def Let_def\<close>)

lemma enqueue_or_ignore_present:
  assumes "a_name b = Some n" "\<exists>j\<in>set (all_jobs s). j_name j = Some n"
  shows "enqueue_or_ignore b tms s = (s, False)"
proof -
  have "find (\<lambda>j. j_name j = Some n) (all_jobs s) \<noteq> None"
    using assms(2) by (simp add: find_None_iff_all)
  then show ?thesis
    using assms(1) by (simp add: enqueue_or_ignore_def get_first_job_from_name_def)
qed

lemma enqueue_or_ignore_repeated:
  assumes "\<exists>j\<in>set (all_jobs s). j_name j = Some n" "\<forall>b\<in>set bs. a_name (fst b) = Some n"
  shows "fold (\<lambda>b u. fst (enqueue_or_ignore (fst b) (snd b) u)) bs s = s"
  using assms(2)
proof (induction bs)
  case Nil
  then show ?case by simp
next
  case (Cons b bs)
  then have "enqueue_or_ignore (fst b) (snd b) s = (s, False)"
    using enqueue_or_ignore_present[of "fst b" n s "snd b"] assms(1) by simp
  with Cons show ?case by simp
qed

lemmas eval_defs = state_of_def MainLoop_init_def resume_def enqueue_def
  run_iteration_def update_running_jobs_def get_queue_length_def active_def
  start_job_def fire_def Let_def priority_enqueue_def job_ends_def
  action_sleep_notify_def action_wake_notify_def in_progress_def get_running_actions_def
  on_job_completed_def restart_job_def module_globals_def

lemma st_running_A_eq:
  "st_running_A = \<lparr> queue = [], force_start = [],
     running_jobs = [(create_job act_A 1)\<lparr>j_alive := True\<rparr>],
     sleeping_actions = [], paused = False, shutdown_now = False, max_threads = 1,
     events = [JobStarted act_A] \<rparr>"
  by (simp add: st_running_A_def state_of_def MainLoop_init_def resume_def enqueue_def
      run_iteration_def update_running_jobs_def get_queue_length_def active_def
      start_job_def fire_def Let_def)

lemma st_queued_BA_queue:
  "queue st_queued_BA = [create_job act_B 1] @ create_job act_A 1 # []"
  "force_start st_queued_BA = []" "running_jobs st_queued_BA = []"
  by (simp_all add: st_queued_BA_def enqueue_def MainLoop_init_def)

section \<open>Retry after a failed attempt\<close>

text \<open>
  C1, evaluated on the code. A job with \<open>times = 2\<close> is admitted, its first attempt
  fails (\<open>failures = 1 < times\<close>), and the next pass of the coordinator reaps it. The
  completion handler fires job-error and then evaluates \<^verbatim>\<open>copy(job)\<close>; \<^verbatim>\<open>copy\<close> is
  not bound in the module, so the pass ends in a NameError: no fresh job enters
  \<open>running_jobs\<close>, there is no second attempt, and neither job-aborted nor a second
  job-error is ever fired.
\<close>

theorem retry_raises_name_error:
  "exec retry_trace MainLoop_init =
     Inl (NameError ''copy'',
       \<lparr> queue = [], force_start = [], running_jobs = [], sleeping_actions = [],
         paused = False, shutdown_now = False, max_threads = 1,
         events = [JobStarted act_A, JobError act_A ''boom''] \<rparr>)"
  by (simp add: retry_trace_def eval_defs)

section \<open>The concurrency gate\<close>

text \<open>
  C2 (as the code has it). From a state within the limit and with nothing waiting in
  \<open>force_start\<close>, every run made of steps that do not force-start, do not change the
  limit and do not wake a sleeping action keeps \<open>|running| - |sleeping| \<le> max_threads\<close>
  and leaves the limit as it was. In any state, a pass of the coordinator that admits pops
  exactly the head of the queue, does so only when not paused, and only after the check
  \<open>active < max_threads\<close>, so the count is within the limit right after the admission;
  a pass that does not admit leaves the queue as it was.
\<close>

theorem active_bounded_without_wake:
  "(active s \<le> max_threads s \<and> force_start s = [] \<and> (\<forall>x\<in>set xs. keeps_limit x) \<longrightarrow>
      active (state_of (exec xs s)) \<le> max_threads s \<and>
      max_threads (state_of (exec xs s)) = max_threads s) \<and>
   (run_iteration t = Inr (oc, t') \<longrightarrow>
      (case oc of
         Admitted j \<Rightarrow> queue t = j # queue t' \<and> \<not> paused t \<and> active t' \<le> max_threads t'
       | _ \<Rightarrow> queue t' = queue t))"
proof -
  let ?P = "\<lambda>u. active u \<le> max_threads s \<and> force_start u = [] \<and>
     max_threads u = max_threads s"
  have "?P (state_of (exec xs s))"
    if "active s \<le> max_threads s" "force_start s = []" "\<forall>x\<in>set xs. keeps_limit x"
  proof (rule exec_preserves[where P = ?P and A = keeps_limit])
    show "?P s" using that by simp
    show "\<forall>x\<in>set xs. keeps_limit x" by (rule that)
    show "?P (state_of (apply_step x u))" if "?P u" "keeps_limit x" for x u
      using step_keeps_bound[OF that] .
  qed
  then show ?thesis
    using iterate_gate[of t oc t'] by blast
qed

text \<open>
  The hypotheses of C2 hold from the initial state for a run in which two actions are
  enqueued, the first is admitted and goes to sleep, the second is admitted, and the first
  ends; the pass after \<^verbatim>\<open>resume\<close> on one queued action admits it.
\<close>

theorem active_bounded_without_wake_witness:
  "active MainLoop_init \<le> max_threads MainLoop_init \<and>
   active (state_of (exec sleep_trace MainLoop_init)) \<le> 1 \<and>
   max_threads (state_of (exec sleep_trace MainLoop_init)) = 1 \<and>
   run_iteration (resume (enqueue act_A 1 MainLoop_init)) =
     Inr (Admitted (create_job act_A 1), start_job (create_job act_A 1) (resume MainLoop_init)) \<and>
   active (start_job (create_job act_A 1) (resume MainLoop_init)) \<le> 1"
proof -
  have h1: "active MainLoop_init \<le> max_threads MainLoop_init \<and> force_start MainLoop_init = [] \<and>
            (\<forall>x\<in>set sleep_trace. keeps_limit x)"
    by (simp add: sleep_trace_def active_def MainLoop_init_def)
  have h2: "run_iteration (resume (enqueue act_A 1 MainLoop_init)) =
     Inr (Admitted (create_job act_A 1), start_job (create_job act_A 1) (resume MainLoop_init))"
    by (simp add: run_iteration_def update_running_jobs_def resume_def enqueue_def
        MainLoop_init_def get_queue_length_def active_def Let_def)
  have m: "max_threads MainLoop_init = 1"
    "max_threads (start_job (create_job act_A 1) (resume MainLoop_init)) = 1"
    by (simp_all add: MainLoop_init_def start_job_def resume_def fire_def)
  note inst = active_bounded_without_wake [where s = MainLoop_init and xs = sleep_trace
      and t = "resume (enqueue act_A 1 MainLoop_init)" and oc = "Admitted (create_job act_A 1)"
      and t' = "start_job (create_job act_A 1) (resume MainLoop_init)"]
  have a: "active (state_of (exec sleep_trace MainLoop_init)) \<le> max_threads MainLoop_init \<and>
      max_threads (state_of (exec sleep_trace MainLoop_init)) = max_threads MainLoop_init"
    using inst [THEN conjunct1, THEN mp, OF h1] .
  have b: "active (start_job (create_job act_A 1) (resume MainLoop_init))
      \<le> max_threads (start_job (create_job act_A 1) (resume MainLoop_init))"
    using inst [THEN conjunct2, THEN mp, OF h2] by simp
  from h1 h2 a b show ?thesis
    unfolding m by blast
qed

text \<open>
  C2 fails as stated. With the limit 1, action A is admitted and marks itself sleeping,
  so B is admitted as well; when A wakes up both are running and none sleeps: the active
  count is 2. All admissions went through \<^verbatim>\<open>enqueue\<close>, and the limit never changed.
\<close>

theorem active_exceeds_limit_after_wake:
  "active (state_of (exec wake_trace MainLoop_init)) = 2 \<and>
   max_threads (state_of (exec wake_trace MainLoop_init)) = 1 \<and>
   \<not> active (state_of (exec wake_trace MainLoop_init))
       \<le> max_threads (state_of (exec wake_trace MainLoop_init))"
  by (simp add: wake_trace_def eval_defs)

section \<open>De-duplicating admission\<close>

text \<open>
  C3. \<^verbatim>\<open>priority_enqueue_or_raise\<close>: if a job with the action's name is in
  \<open>force_start\<close> or \<open>running_jobs\<close>, nothing changes and the result is False. Otherwise,
  if \<open>e\<close> is the first job of the queue with that name, \<open>e\<close> is removed, the new job is
  built from the Action bound to \<open>e\<close> (not from the caller's), it goes to the end of
  \<open>force_start\<close> or to the head of the queue as the flag says, and the result is False.
  If no job with that name exists anywhere, the new job is built from the caller's Action
  and the result is True; and the result is True in no other case.
\<close>

theorem priority_enqueue_or_raise_cases:
  "((\<exists>j\<in>set (force_start s @ running_jobs s). j_name j = a_name a) \<longrightarrow>
      priority_enqueue_or_raise a force tms s = (s, False)) \<and>
   ((\<forall>j\<in>set (force_start s @ running_jobs s). j_name j \<noteq> a_name a) \<and>
    queue s = pre @ e # post \<and> (\<forall>j\<in>set pre. j_name j \<noteq> a_name a) \<and> j_name e = a_name a \<longrightarrow>
      priority_enqueue_or_raise a force tms s =
        (if force
         then s\<lparr>queue := pre @ post,
                force_start := force_start s @ [create_job (j_action e) tms]\<rparr>
         else s\<lparr>queue := create_job (j_action e) tms # pre @ post\<rparr>,
         False)) \<and>
   ((\<forall>j\<in>set (all_jobs s). j_name j \<noteq> a_name a) \<longrightarrow>
      priority_enqueue_or_raise a force tms s =
        (if force then s\<lparr>force_start := force_start s @ [create_job a tms]\<rparr>
         else s\<lparr>queue := create_job a tms # queue s\<rparr>,
         True)) \<and>
   (snd (priority_enqueue_or_raise a force tms s) \<longleftrightarrow>
      (\<forall>j\<in>set (all_jobs s). j_name j \<noteq> a_name a))"
proof -
  let ?P = "\<lambda>j. j_name j = a_name a"
  have c1: "(\<exists>j\<in>set (force_start s @ running_jobs s). ?P j) \<longrightarrow>
      priority_enqueue_or_raise a force tms s = (s, False)"
    by (simp add: priority_enqueue_or_raise_def)
  have c2: "priority_enqueue_or_raise a force tms s =
        (if force
         then s\<lparr>queue := pre @ post,
                force_start := force_start s @ [create_job (j_action e) tms]\<rparr>
         else s\<lparr>queue := create_job (j_action e) tms # pre @ post\<rparr>,
         False)"
    if nr: "\<forall>j\<in>set (force_start s @ running_jobs s). \<not> ?P j"
      and q: "queue s = pre @ e # post" and pre: "\<forall>j\<in>set pre. \<not> ?P j" and e: "?P e"
  proof -
    have f: "find ?P (queue s) = Some e"
      using q pre e find_first_split[of pre ?P e post] by simp
    have "e \<notin> set pre" using pre e by blast
    then have r: "remove1 e (queue s) = pre @ post"
      using q by (simp add: remove1_first_split)
    show ?thesis
      using nr by (simp add: priority_enqueue_or_raise_def Let_def f r)
  qed
  have c3: "priority_enqueue_or_raise a force tms s =
        (if force then s\<lparr>force_start := force_start s @ [create_job a tms]\<rparr>
         else s\<lparr>queue := create_job a tms # queue s\<rparr>,
         True)"
    if none: "\<forall>j\<in>set (all_jobs s). \<not> ?P j"
  proof -
    have f: "find ?P (queue s) = None"
      using none by (simp add: find_None_iff_all all_jobs_def)
    have g: "\<not> (\<exists>j\<in>set (force_start s @ running_jobs s). ?P j)"
      using none by (auto simp: all_jobs_def)
    show ?thesis
      using g by (simp add: priority_enqueue_or_raise_def Let_def f)
  qed
  have c4: "snd (priority_enqueue_or_raise a force tms s) \<longleftrightarrow>
      (\<forall>j\<in>set (all_jobs s). \<not> ?P j)"
  proof (cases "\<exists>j\<in>set (force_start s @ running_jobs s). ?P j")
    case True
    then show ?thesis by (auto simp: priority_enqueue_or_raise_def all_jobs_def)
  next
    case False
    then have "snd (priority_enqueue_or_raise a force tms s) \<longleftrightarrow> find ?P (queue s) = None"
      by (simp add: priority_enqueue_or_raise_def Let_def)
    with False show ?thesis
      by (auto simp: find_None_iff_all all_jobs_def)
  qed
  from c1 c2 c3 c4 show ?thesis by blast
qed

text \<open>
  The three cases of C3 on concrete states: A is running; A is queued behind B (head
  placement and force-start); nothing is queued.
\<close>

theorem priority_enqueue_or_raise_cases_witness:
  "priority_enqueue_or_raise act_A2 True 3 st_running_A = (st_running_A, False) \<and>
   priority_enqueue_or_raise act_A2 False 5 st_queued_BA =
     (st_queued_BA\<lparr>queue := [create_job act_A 5, create_job act_B 1]\<rparr>, False) \<and>
   priority_enqueue_or_raise act_A2 True 5 st_queued_BA =
     (st_queued_BA\<lparr>queue := [create_job act_B 1], force_start := [create_job act_A 5]\<rparr>, False) \<and>
   priority_enqueue_or_raise act_A False 2 MainLoop_init =
     (MainLoop_init\<lparr>queue := [create_job act_A 2]\<rparr>, True)"
proof -
  have h1: "\<exists>j\<in>set (force_start st_running_A @ running_jobs st_running_A).
              j_name j = a_name act_A2"
    by (simp add: st_running_A_eq act_A_def act_A2_def)
  have h2: "(\<forall>j\<in>set (force_start st_queued_BA @ running_jobs st_queued_BA).
               j_name j \<noteq> a_name act_A2) \<and>
            queue st_queued_BA = [create_job act_B 1] @ create_job act_A 1 # [] \<and>
            (\<forall>j\<in>set [create_job act_B 1]. j_name j \<noteq> a_name act_A2) \<and>
            j_name (create_job act_A 1) = a_name act_A2"
    by (simp add: st_queued_BA_queue act_A_def act_A2_def act_B_def)
  have h3: "\<forall>j\<in>set (all_jobs MainLoop_init). j_name j \<noteq> a_name act_A"
    by (simp add: all_jobs_def MainLoop_init_def)
  have i: "queue MainLoop_init = []" "force_start MainLoop_init = []"
    by (simp_all add: MainLoop_init_def)
  show ?thesis
    using h1 h2 h3 i st_queued_BA_queue(2)
      priority_enqueue_or_raise_cases [where s = st_running_A and a = act_A2
        and force = True and tms = 3]
      priority_enqueue_or_raise_cases [where s = st_queued_BA and a = act_A2
        and pre = "[create_job act_B 1]" and e = "create_job act_A 1" and post = "[]"
        and force = False and tms = 5]
      priority_enqueue_or_raise_cases [where s = st_queued_BA and a = act_A2
        and pre = "[create_job act_B 1]" and e = "create_job act_A 1" and post = "[]"
        and force = True and tms = 5]
      priority_enqueue_or_raise_cases [where s = MainLoop_init and a = act_A
        and force = False and tms = 2]
    by simp
qed

text \<open>
  C4 (as the code has it). For an action whose name is not None, \<^verbatim>\<open>enqueue_or_ignore\<close>
  appends a new job at the tail of the queue and returns True when no job with that name
  is in the queue, in \<open>force_start\<close> or running, after which exactly one job has that
  name; when such a job exists it changes nothing and returns False, and so does every
  further call with an action of that name. For an action whose name is None it always
  appends and returns True.
\<close>

theorem enqueue_or_ignore_named:
  "(a_name a \<noteq> None \<and> (\<forall>j\<in>set (all_jobs s). j_name j \<noteq> a_name a) \<longrightarrow>
      enqueue_or_ignore a tms s = (s\<lparr>queue := queue s @ [create_job a tms]\<rparr>, True) \<and>
      length (filter (\<lambda>j. j_name j = a_name a)
        (all_jobs (fst (enqueue_or_ignore a tms s)))) = 1) \<and>
   (a_name a \<noteq> None \<and> (\<exists>j\<in>set (all_jobs s). j_name j = a_name a) \<longrightarrow>
      enqueue_or_ignore a tms s = (s, False)) \<and>
   (a_name a = None \<longrightarrow>
      enqueue_or_ignore a tms s = (s\<lparr>queue := queue s @ [create_job a tms]\<rparr>, True)) \<and>
   (a_name a \<noteq> None \<and> (\<exists>j\<in>set (all_jobs s). j_name j = a_name a) \<and>
    (\<forall>b\<in>set bs. a_name (fst b) = a_name a) \<longrightarrow>
      fold (\<lambda>b u. fst (enqueue_or_ignore (fst b) (snd b) u)) bs s = s)"
proof -
  let ?P = "\<lambda>j. j_name j = a_name a"
  have absent: "filter ?P xs = []" if "\<forall>j\<in>set xs. \<not> ?P j" for xs :: "job list"
    using that by (induction xs) auto
  have c1: "enqueue_or_ignore a tms s = (s\<lparr>queue := queue s @ [create_job a tms]\<rparr>, True) \<and>
      length (filter ?P (all_jobs (fst (enqueue_or_ignore a tms s)))) = 1"
    if n: "a_name a \<noteq> None" and none: "\<forall>j\<in>set (all_jobs s). \<not> ?P j"
  proof -
    have f: "find ?P (all_jobs s) = None"
      using none by (simp add: find_None_iff_all)
    have e: "enqueue_or_ignore a tms s = (s\<lparr>queue := queue s @ [create_job a tms]\<rparr>, True)"
      using n f by (simp add: enqueue_or_ignore_def get_first_job_from_name_def)
    have "filter ?P (queue s) = []" "filter ?P (force_start s) = []"
      "filter ?P (running_jobs s) = []"
      using none by (auto intro!: absent simp: all_jobs_def)
    then show ?thesis
      by (simp add: e all_jobs_def)
  qed
  have c2: "enqueue_or_ignore a tms s = (s, False)"
    if n: "a_name a \<noteq> None" and some: "\<exists>j\<in>set (all_jobs s). ?P j"
  proof -
    have "find ?P (all_jobs s) \<noteq> None"
      using some by (simp add: find_None_iff_all)
    then show ?thesis
      using n by (simp add: enqueue_or_ignore_def get_first_job_from_name_def)
  qed
  have c3: "a_name a = None \<longrightarrow>
      enqueue_or_ignore a tms s = (s\<lparr>queue := queue s @ [create_job a tms]\<rparr>, True)"
    by (simp add: enqueue_or_ignore_def get_first_job_from_name_def)
  have c4: "fold (\<lambda>b u. fst (enqueue_or_ignore (fst b) (snd b) u)) bs s = s"
    if n: "a_name a \<noteq> None" and some: "\<exists>j\<in>set (all_jobs s). ?P j"
      and same: "\<forall>b\<in>set bs. a_name (fst b) = a_name a"
  proof -
    from n obtain m where m: "a_name a = Some m" by auto
    show ?thesis
      using enqueue_or_ignore_repeated[of s m bs] some same m by simp
  qed
  from c1 c2 c3 c4 show ?thesis by blast
qed

text \<open>
  The cases of C4 on concrete states: a new name, a name already queued (once and
  repeatedly), and an action without a name.
\<close>

theorem enqueue_or_ignore_named_witness:
  "enqueue_or_ignore act_A 1 MainLoop_init =
     (MainLoop_init\<lparr>queue := [create_job act_A 1]\<rparr>, True) \<and>
   enqueue_or_ignore act_A2 4 st_queued_A = (st_queued_A, False) \<and>
   enqueue_or_ignore act_N 1 MainLoop_init =
     (MainLoop_init\<lparr>queue := [create_job act_N 1]\<rparr>, True) \<and>
   fold (\<lambda>b u. fst (enqueue_or_ignore (fst b) (snd b) u)) [(act_A2, 4), (act_A, 7)]
     st_queued_A = st_queued_A"
proof -
  have h1: "a_name act_A \<noteq> None \<and> (\<forall>j\<in>set (all_jobs MainLoop_init). j_name j \<noteq> a_name act_A)"
    by (simp add: all_jobs_def MainLoop_init_def act_A_def)
  have h2: "a_name act_A2 \<noteq> None \<and> (\<exists>j\<in>set (all_jobs st_queued_A). j_name j = a_name act_A2)"
    by (simp add: all_jobs_def st_queued_A_def enqueue_def MainLoop_init_def act_A_def act_A2_def)
  have h3: "a_name act_N = None"
    by (simp add: act_N_def)
  have h4: "\<forall>b\<in>set [(act_A2, 4), (act_A, 7::int)]. a_name (fst b) = a_name act_A2"
    by (simp add: act_A_def act_A2_def)
  have i: "queue MainLoop_init = []"
    by (simp add: MainLoop_init_def)
  note i1 = enqueue_or_ignore_named [where a = act_A and s = MainLoop_init and tms = 1]
  note i2 = enqueue_or_ignore_named [where a = act_A2 and s = st_queued_A and tms = 4
      and bs = "[(act_A2, 4), (act_A, 7)]"]
  note i3 = enqueue_or_ignore_named [where a = act_N and s = MainLoop_init and tms = 1]
  have r1: "enqueue_or_ignore act_A 1 MainLoop_init =
      (MainLoop_init\<lparr>queue := queue MainLoop_init @ [create_job act_A 1]\<rparr>, True)"
    using i1 [THEN conjunct1, THEN mp, OF h1, THEN conjunct1] .
  have r2: "enqueue_or_ignore act_A2 4 st_queued_A = (st_queued_A, False)"
    using i2 [THEN conjunct2, THEN conjunct1, THEN mp, OF h2] .
  have r3: "enqueue_or_ignore act_N 1 MainLoop_init =
      (MainLoop_init\<lparr>queue := queue MainLoop_init @ [create_job act_N 1]\<rparr>, True)"
    using i3 [THEN conjunct2, THEN conjunct2, THEN conjunct1, THEN mp, OF h3] .
  have r4: "fold (\<lambda>b u. fst (enqueue_or_ignore (fst b) (snd b) u)) [(act_A2, 4), (act_A, 7)]
      st_queued_A = st_queued_A"
    using i2 [THEN conjunct2, THEN conjunct2, THEN conjunct2, THEN mp,
        OF conjI [OF h2 [THEN conjunct1] conjI [OF h2 [THEN conjunct2] h4]]] .
  show ?thesis
    using r1 r2 r3 r4 i by (simp del: fold_simps)
qed

text \<open>
  C4 fails as stated for actions without a name: a job with the same name (None) is
  already queued, and yet the call appends a second one and returns True.
\<close>

theorem enqueue_or_ignore_unnamed_duplicate:
  "queue st_queued_N = [create_job act_N 1] \<and>
   j_name (create_job act_N 1) = a_name act_N \<and>
   enqueue_or_ignore act_N 1 st_queued_N =
     (st_queued_N\<lparr>queue := [create_job act_N 1, create_job act_N 1]\<rparr>, True)"
  by (simp add: st_queued_N_def enqueue_or_ignore_def get_first_job_from_name_def
      act_N_def MainLoop_init_def)

section \<open>Shutdown\<close>

text \<open>
  C5. \<^verbatim>\<open>shutdown\<close> sets the flag and joins exactly the jobs that are running at that
  moment; it touches neither the queue, nor \<open>force_start\<close>, nor the events. The next test
  of the loop condition ends the coordinator loop without any change. Once the flag is
  set, no run of the system clears it, fires an event or puts another job among the
  running ones: what is queued or waiting in \<open>force_start\<close> is never started and
  never reported.
\<close>

theorem shutdown_stops_coordinator:
  "shutdown_now (fst (shutdown s)) \<and>
   snd (shutdown s) = running_jobs s \<and>
   queue (fst (shutdown s)) = queue s \<and>
   force_start (fst (shutdown s)) = force_start s \<and>
   running_jobs (fst (shutdown s)) = running_jobs s \<and>
   events (fst (shutdown s)) = events s \<and>
   run_iteration (fst (shutdown s)) = Inr (Exited, fst (shutdown s)) \<and>
   (shutdown_now t \<longrightarrow>
      shutdown_now (state_of (exec xs t)) \<and>
      events (state_of (exec xs t)) = events t \<and>
      map j_action (running_jobs (state_of (exec xs t))) = map j_action (running_jobs t))"
proof -
  let ?P = "\<lambda>u. shutdown_now u \<and> events u = events t \<and>
     map j_action (running_jobs u) = map j_action (running_jobs t)"
  have "?P (state_of (exec xs t))" if "shutdown_now t"
  proof (rule exec_preserves[where P = ?P and A = "\<lambda>x. True"])
    show "?P t" using that by simp
    show "\<forall>x\<in>set xs. True" by simp
    show "?P (state_of (apply_step x u))" if "?P u" for x u
      using that step_after_shutdown[of u x] by simp
  qed
  then show ?thesis
    by (simp add: shutdown_def run_iteration_def)
qed

text \<open>
  C5 on a concrete run: after a shutdown with A queued, a force-start of B, a resume and
  two passes of the coordinator start nothing and fire nothing.
\<close>

theorem shutdown_stops_coordinator_witness:
  "shutdown_now (fst (shutdown st_queued_A)) \<and>
   events (state_of (exec [PriorityEnqueue act_B True 1, Iterate, Resume, Iterate]
     (fst (shutdown st_queued_A)))) = [] \<and>
   running_jobs (state_of (exec [PriorityEnqueue act_B True 1, Iterate, Resume, Iterate]
     (fst (shutdown st_queued_A)))) = []"
proof -
  have h: "shutdown_now (fst (shutdown st_queued_A))"
    by (simp add: shutdown_def)
  have e: "events (fst (shutdown st_queued_A)) = []"
    "running_jobs (fst (shutdown st_queued_A)) = []"
    by (simp_all add: shutdown_def st_queued_A_def enqueue_def MainLoop_init_def)
  let ?r = "state_of (exec [PriorityEnqueue act_B True 1, Iterate, Resume, Iterate]
     (fst (shutdown st_queued_A)))"
  from h shutdown_stops_coordinator [where s = st_queued_A
      and t = "fst (shutdown st_queued_A)"
      and xs = "[PriorityEnqueue act_B True 1, Iterate, Resume, Iterate]"]
  have "events ?r = events (fst (shutdown st_queued_A)) \<and>
        map j_action (running_jobs ?r) = map j_action (running_jobs (fst (shutdown st_queued_A)))"
    by blast
  with h e show ?thesis
    by (simp del: exec.simps)
qed

section \<open>Blocking waits\<close>

text \<open>
  C6 (as the code has it). \<^verbatim>\<open>wait_until_done\<close> returns after \<open>n\<close> wake-ups exactly when
  the \<open>n\<close>-th state it sees is the first in which the queue, \<open>force_start\<close> and
  \<open>running_jobs\<close> are all empty. A shutdown does not change that count, so a waiter woken
  by a shutdown with work still present goes back to waiting.
\<close>

theorem wait_until_done_returns_when_empty:
  "(wait_until_done s obs = Some n \<longleftrightarrow>
      n \<le> length obs \<and> get_queue_length ((s # obs) ! n) = 0 \<and>
      (\<forall>i<n. get_queue_length ((s # obs) ! i) > 0)) \<and>
   (get_queue_length t = 0 \<longleftrightarrow>
      queue t = [] \<and> force_start t = [] \<and> running_jobs t = []) \<and>
   get_queue_length (fst (shutdown t)) = get_queue_length t \<and>
   (get_queue_length t > 0 \<longrightarrow> wait_until_done t [fst (shutdown t)] = None)"
proof -
  have a: "wait_until_done s obs = Some n \<longleftrightarrow>
      n \<le> length obs \<and> get_queue_length ((s # obs) ! n) = 0 \<and>
      (\<forall>i<n. get_queue_length ((s # obs) ! i) > 0)"
    unfolding wait_until_done_def wait_while_Some_iff by simp
  have b: "get_queue_length t = 0 \<longleftrightarrow>
      queue t = [] \<and> force_start t = [] \<and> running_jobs t = []"
    by (simp add: get_queue_length_def)
  have c: "get_queue_length (fst (shutdown t)) = get_queue_length t"
    by (simp add: shutdown_def get_queue_length_def)
  have d: "get_queue_length t > 0 \<longrightarrow> wait_until_done t [fst (shutdown t)] = None"
    using c by (simp add: wait_until_done_def)
  from a b c d show ?thesis by blast
qed

text \<open>
  C6 on concrete observations: with A queued, a shutdown leaves the caller blocked; the
  caller returns at the second wake-up when A has run and is gone.
\<close>

theorem wait_until_done_returns_when_empty_witness:
  "0 < get_queue_length st_queued_A \<and>
   wait_until_done st_queued_A [fst (shutdown st_queued_A)] = None \<and>
   wait_until_done st_queued_A [st_running_A, MainLoop_init] = Some 2"
proof -
  have q: "get_queue_length st_queued_A = 1" "get_queue_length st_running_A = 1"
    "get_queue_length MainLoop_init = 0"
    by (simp_all add: get_queue_length_def st_queued_A_def enqueue_def MainLoop_init_def
        st_running_A_eq)
  have "\<forall>i<2. 0 < get_queue_length ((st_queued_A # [st_running_A, MainLoop_init]) ! i)"
    using q by (simp add: less_Suc_eq numeral_2_eq_2)
  then show ?thesis
    using q
      wait_until_done_returns_when_empty [where t = st_queued_A and s = st_queued_A
        and obs = "[st_running_A, MainLoop_init]" and n = 2]
    by simp
qed

text \<open>
  C6 fails as stated: with one job queued, the wake-up caused by a shutdown finds the flag
  set and the queue still non-empty, and the caller stays blocked.
\<close>

theorem wait_until_done_not_unblocked_by_shutdown:
  "get_queue_length st_queued_A = 1 \<and>
   shutdown_now (fst (shutdown st_queued_A)) \<and>
   wait_until_done st_queued_A [fst (shutdown st_queued_A)] = None"
  by (simp add: wait_until_done_def get_queue_length_def shutdown_def st_queued_A_def
      enqueue_def MainLoop_init_def)

text \<open>
  C7. \<^verbatim>\<open>wait_for\<close> given an integer looks for a job, in the queue, in \<open>force_start\<close> or
  in \<open>running_jobs\<close>, whose action has that hash: it finds none exactly when none of
  the three lists holds such a job, and then returns at once; otherwise it finds the
  action of the first such job (queue first, then \<open>force_start\<close>, then \<open>running_jobs\<close>)
  and goes on as if given that action. Given an action, it returns after \<open>n\<close> wake-ups
  exactly when the \<open>n\<close>-th state it sees is the first in which no job of the queue, of
  \<open>force_start\<close> or of \<open>running_jobs\<close> is bound to the action; \<^verbatim>\<open>in_queue\<close> is exactly
  that membership.
\<close>

theorem wait_for_blocks_until_absent:
  "(in_queue t a \<longleftrightarrow>
      (\<exists>j\<in>set (queue t) \<union> set (force_start t) \<union> set (running_jobs t). j_action j = a)) \<and>
   (get_action_from_hash s h = None \<longleftrightarrow>
      (\<forall>j\<in>set (queue s) \<union> set (force_start s) \<union> set (running_jobs s).
         a_hash (j_action j) \<noteq> h)) \<and>
   (get_action_from_hash s h = None \<longrightarrow> wait_for (ByHash h) s obs = Some 0) \<and>
   (get_action_from_hash s h = Some a \<longrightarrow>
      a_hash a = h \<and>
      (\<exists>j\<in>set (queue s) \<union> set (force_start s) \<union> set (running_jobs s). j_action j = a) \<and>
      wait_for (ByHash h) s obs = wait_for (ByAction a) s obs) \<and>
   (queue s @ force_start s @ running_jobs s = pre @ e # post \<and>
    (\<forall>j\<in>set pre. a_hash (j_action j) \<noteq> h) \<and> a_hash (j_action e) = h \<longrightarrow>
      get_action_from_hash s h = Some (j_action e)) \<and>
   (wait_for (ByAction a) s obs = Some n \<longleftrightarrow>
      n \<le> length obs \<and>
      (\<forall>j\<in>set (queue ((s # obs) ! n)) \<union> set (force_start ((s # obs) ! n)) \<union>
            set (running_jobs ((s # obs) ! n)). j_action j \<noteq> a) \<and>
      (\<forall>i<n. \<exists>j\<in>set (queue ((s # obs) ! i)) \<union> set (force_start ((s # obs) ! i)) \<union>
            set (running_jobs ((s # obs) ! i)). j_action j = a))"
proof -
  let ?P = "\<lambda>j. a_hash (j_action j) = h"
  have c0: "in_queue t a \<longleftrightarrow>
      (\<exists>j\<in>set (queue t) \<union> set (force_start t) \<union> set (running_jobs t). j_action j = a)"
    by (rule in_queue_iff)
  have c1: "get_action_from_hash s h = None \<longleftrightarrow>
      (\<forall>j\<in>set (queue s) \<union> set (force_start s) \<union> set (running_jobs s). \<not> ?P j)"
    by (auto simp: get_action_from_hash_def find_None_iff_all all_jobs_def)
  have c2: "get_action_from_hash s h = None \<longrightarrow> wait_for (ByHash h) s obs = Some 0"
    by (simp add: wait_for_def)
  have c3: "a_hash a = h \<and>
      (\<exists>j\<in>set (queue s) \<union> set (force_start s) \<union> set (running_jobs s). j_action j = a) \<and>
      wait_for (ByHash h) s obs = wait_for (ByAction a) s obs"
    if "get_action_from_hash s h = Some a"
  proof -
    from that obtain j where j: "find ?P (all_jobs s) = Some j" and a: "a = j_action j"
      by (auto simp: get_action_from_hash_def)
    from j have "?P j" "j \<in> set (all_jobs s)"
      by (auto simp: find_Some_iff)
    with a that show ?thesis
      by (auto simp: all_jobs_def wait_for_def)
  qed
  have c4: "get_action_from_hash s h = Some (j_action e)"
    if "queue s @ force_start s @ running_jobs s = pre @ e # post"
      "\<forall>j\<in>set pre. \<not> ?P j" "?P e"
    using that find_first_split[of pre ?P e post]
    by (simp add: get_action_from_hash_def all_jobs_def)
  have c5: "wait_for (ByAction a) s obs = Some n \<longleftrightarrow>
      n \<le> length obs \<and>
      (\<forall>j\<in>set (queue ((s # obs) ! n)) \<union> set (force_start ((s # obs) ! n)) \<union>
            set (running_jobs ((s # obs) ! n)). j_action j \<noteq> a) \<and>
      (\<forall>i<n. \<exists>j\<in>set (queue ((s # obs) ! i)) \<union> set (force_start ((s # obs) ! i)) \<union>
            set (running_jobs ((s # obs) ! i)). j_action j = a)"
    unfolding wait_for_def wait_arg.case wait_while_Some_iff in_queue_iff by blast
  from c0 c1 c2 c3 c4 c5 show ?thesis by blast
qed

text \<open>
  C7 on concrete observations: an unknown hash returns at once; the hash of the queued
  action A and A itself both return at the second wake-up, when A is gone.
\<close>

theorem wait_for_blocks_until_absent_witness:
  "wait_for (ByHash 999) st_queued_A [] = Some 0 \<and>
   get_action_from_hash st_queued_A 101 = Some act_A \<and>
   wait_for (ByHash 101) st_queued_A [st_running_A, MainLoop_init] = Some 2 \<and>
   wait_for (ByAction act_A) st_queued_A [st_running_A, MainLoop_init] = Some 2"
proof -
  let ?obs = "[st_running_A, MainLoop_init]"
  have f: "queue st_queued_A = [create_job act_A 1]" "force_start st_queued_A = []"
    "running_jobs st_queued_A = []"
    "queue st_running_A = []" "force_start st_running_A = []"
    "running_jobs st_running_A = [(create_job act_A 1)\<lparr>j_alive := True\<rparr>]"
    "queue MainLoop_init = []" "force_start MainLoop_init = []"
    "running_jobs MainLoop_init = []"
    by (simp_all add: st_queued_A_def enqueue_def MainLoop_init_def st_running_A_eq)
  have h1: "get_action_from_hash st_queued_A 999 = None"
    by (simp add: get_action_from_hash_def all_jobs_def f act_A_def)
  have h2: "queue st_queued_A @ force_start st_queued_A @ running_jobs st_queued_A =
        [] @ create_job act_A 1 # [] \<and>
      (\<forall>j\<in>set []. a_hash (j_action j) \<noteq> 101) \<and> a_hash (j_action (create_job act_A 1)) = 101"
    by (simp add: f act_A_def)
  have h3: "2 \<le> length ?obs \<and>
      (\<forall>j\<in>set (queue ((st_queued_A # ?obs) ! 2)) \<union> set (force_start ((st_queued_A # ?obs) ! 2)) \<union>
            set (running_jobs ((st_queued_A # ?obs) ! 2)). j_action j \<noteq> act_A) \<and>
      (\<forall>i<2. \<exists>j\<in>set (queue ((st_queued_A # ?obs) ! i)) \<union>
            set (force_start ((st_queued_A # ?obs) ! i)) \<union>
            set (running_jobs ((st_queued_A # ?obs) ! i)). j_action j = act_A)"
    by (simp add: f less_Suc_eq numeral_2_eq_2)
  note i1 = wait_for_blocks_until_absent [where s = st_queued_A and h = 999 and obs = "[]"]
  note i2 = wait_for_blocks_until_absent [where s = st_queued_A and h = 101 and a = act_A
      and obs = ?obs and n = 2 and pre = "[]" and e = "create_job act_A 1" and post = "[]"]
  have r1: "wait_for (ByHash 999) st_queued_A [] = Some 0"
    using i1 [THEN conjunct2, THEN conjunct2, THEN conjunct1, THEN mp, OF h1] .
  have r2: "get_action_from_hash st_queued_A 101 = Some act_A"
    using i2 [THEN conjunct2, THEN conjunct2, THEN conjunct2, THEN conjunct2, THEN conjunct1,
        THEN mp, OF h2] by simp
  have r3: "wait_for (ByHash 101) st_queued_A ?obs = wait_for (ByAction act_A) st_queued_A ?obs"
    using i2 [THEN conjunct2, THEN conjunct2, THEN conjunct2, THEN conjunct1, THEN mp, OF r2]
    by blast
  have r4: "wait_for (ByAction act_A) st_queued_A ?obs = Some 2"
    using i2 [THEN conjunct2, THEN conjunct2, THEN conjunct2, THEN conjunct2, THEN conjunct2,
        THEN iffD2, OF h3] .
  from r1 r2 r3 r4 show ?thesis by simp
qed

section \<open>The concurrency limit\<close>

text \<open>
  C8 (as the code has it). \<^verbatim>\<open>set_max_threads\<close> fails its assertion only for None; every
  integer, negative ones included, is stored as the new limit.
\<close>

theorem set_max_threads_stores_any_int:
  "set_max_threads None s = Inl (AssertionError, s) \<and>
   set_max_threads (Some n) s = Inr (s\<lparr>max_threads := n\<rparr>) \<and>
   get_max_threads (state_of (set_max_threads (Some n) s)) = n"
  by (simp add: set_max_threads_def state_of_def get_max_threads_def)

text \<open>
  C8 fails as stated: a negative limit is accepted without any error and becomes the
  limit.
\<close>

theorem set_max_threads_negative_accepted:
  "set_max_threads (Some (- 1)) MainLoop_init = Inr (MainLoop_init\<lparr>max_threads := - 1\<rparr>)"
  by (simp add: set_max_threads_def)

section \<open>Cooperative sleep\<close>

text \<open>
  C9 (as the code has it). The sleep notification fails its assertion unless some running
  job is bound to the action, and otherwise appends the action to \<open>sleeping_actions\<close>.
  The wake notification fails an assertion unless some running job is bound to the action
  and the action is in \<open>sleeping_actions\<close>, and otherwise removes one occurrence of it
  (\<^verbatim>\<open>list.remove\<close>): the list gets shorter by one, the action occurs once less, and it
  is out of the list exactly when it was recorded once. Under the preconditions no
  assertion fails.
\<close>

theorem sleep_wake_notify_contract:
  "(in_progress s a \<longleftrightarrow> (\<exists>j\<in>set (running_jobs s). j_action j = a)) \<and>
   ((\<exists>j\<in>set (running_jobs s). j_action j = a) \<longrightarrow>
      action_sleep_notify a s = Inr (s\<lparr>sleeping_actions := sleeping_actions s @ [a]\<rparr>)) \<and>
   ((\<forall>j\<in>set (running_jobs s). j_action j \<noteq> a) \<longrightarrow>
      action_sleep_notify a s = Inl (AssertionError, s)) \<and>
   ((\<exists>j\<in>set (running_jobs s). j_action j = a) \<and> a \<in> set (sleeping_actions s) \<longrightarrow>
      action_wake_notify a s = Inr (s\<lparr>sleeping_actions := remove1 a (sleeping_actions s)\<rparr>) \<and>
      length (remove1 a (sleeping_actions s)) + 1 = length (sleeping_actions s) \<and>
      count_list (remove1 a (sleeping_actions s)) a + 1 = count_list (sleeping_actions s) a \<and>
      (a \<notin> set (remove1 a (sleeping_actions s)) \<longleftrightarrow>
         count_list (sleeping_actions s) a = 1)) \<and>
   (\<not> ((\<exists>j\<in>set (running_jobs s). j_action j = a) \<and> a \<in> set (sleeping_actions s)) \<longrightarrow>
      action_wake_notify a s = Inl (AssertionError, s))"
proof -
  let ?xs = "sleeping_actions s"
  have len: "length (remove1 a ?xs) + 1 = length ?xs" if "a \<in> set ?xs"
    using that by (simp add: length_remove1) (cases ?xs; auto)
  have cnt: "count_list (remove1 a ?xs) a + 1 = count_list ?xs a" if "a \<in> set ?xs"
    using that by (rule count_list_remove1)
  have gone: "a \<notin> set (remove1 a ?xs) \<longleftrightarrow> count_list ?xs a = 1" if "a \<in> set ?xs"
  proof -
    have "a \<notin> set (remove1 a ?xs) \<longleftrightarrow> count_list (remove1 a ?xs) a = 0"
      using count_list_0_iff[of "remove1 a ?xs" a] by blast
    with cnt[OF that] show ?thesis by arith
  qed
  show ?thesis
    using len cnt gone
    by (auto simp: action_sleep_notify_def action_wake_notify_def in_progress_iff)
qed

text \<open>
  C9 on a concrete state in which A is running and B is not: A may go to sleep and wake
  up again, B may not go to sleep, and A may not wake up before it sleeps.
\<close>

theorem sleep_wake_notify_contract_witness:
  "action_sleep_notify act_A st_running_A = Inr (st_running_A\<lparr>sleeping_actions := [act_A]\<rparr>) \<and>
   action_sleep_notify act_B st_running_A = Inl (AssertionError, st_running_A) \<and>
   action_wake_notify act_A (st_running_A\<lparr>sleeping_actions := [act_A]\<rparr>) =
     Inr (st_running_A\<lparr>sleeping_actions := []\<rparr>) \<and>
   action_wake_notify act_A st_running_A = Inl (AssertionError, st_running_A)"
proof -
  let ?t = "st_running_A\<lparr>sleeping_actions := [act_A]\<rparr>"
  have r: "running_jobs st_running_A = [(create_job act_A 1)\<lparr>j_alive := True\<rparr>]"
    "sleeping_actions st_running_A = []"
    by (simp_all add: st_running_A_eq)
  have h1: "\<exists>j\<in>set (running_jobs st_running_A). j_action j = act_A"
    by (simp add: r)
  have h2: "\<forall>j\<in>set (running_jobs st_running_A). j_action j \<noteq> act_B"
    by (simp add: r act_A_def act_B_def)
  have h3: "(\<exists>j\<in>set (running_jobs ?t). j_action j = act_A) \<and> act_A \<in> set (sleeping_actions ?t)"
    by (simp add: r)
  have h4: "\<not> ((\<exists>j\<in>set (running_jobs st_running_A). j_action j = act_A) \<and>
      act_A \<in> set (sleeping_actions st_running_A))"
    by (simp add: r)
  note iA = sleep_wake_notify_contract [where s = st_running_A and a = act_A]
  note iB = sleep_wake_notify_contract [where s = st_running_A and a = act_B]
  note iT = sleep_wake_notify_contract [where s = ?t and a = act_A]
  have c1: "action_sleep_notify act_A st_running_A =
      Inr (st_running_A\<lparr>sleeping_actions := sleeping_actions st_running_A @ [act_A]\<rparr>)"
    using iA [THEN conjunct2, THEN conjunct1, THEN mp, OF h1] .
  have c2: "action_sleep_notify act_B st_running_A = Inl (AssertionError, st_running_A)"
    using iB [THEN conjunct2, THEN conjunct2, THEN conjunct1, THEN mp, OF h2] .
  have c3: "action_wake_notify act_A ?t =
      Inr (?t\<lparr>sleeping_actions := remove1 act_A (sleeping_actions ?t)\<rparr>)"
    using iT [THEN conjunct2, THEN conjunct2, THEN conjunct2, THEN conjunct1, THEN mp, OF h3,
        THEN conjunct1] .
  have c4: "action_wake_notify act_A st_running_A = Inl (AssertionError, st_running_A)"
    using iA [THEN conjunct2, THEN conjunct2, THEN conjunct2, THEN conjunct2, THEN mp, OF h4] .
  from c1 c2 c3 c4 show ?thesis
    by (simp add: r)
qed

text \<open>
  C9 fails as stated: nothing stops a running action from notifying sleep twice, and
  after that a successful wake notification leaves the action in \<open>sleeping_actions\<close>.
\<close>

theorem wake_after_double_sleep_still_sleeping:
  "exec double_sleep_trace MainLoop_init = Inr (st_running_A\<lparr>sleeping_actions := [act_A]\<rparr>) \<and>
   act_A \<in> set (sleeping_actions (state_of (exec double_sleep_trace MainLoop_init)))"
  by (simp add: double_sleep_trace_def st_running_A_eq eval_defs)

section \<open>The initial pause\<close>

text \<open>
  C10. A new scheduler is paused and has the limit 1. As long as no step is a
  \<^verbatim>\<open>resume\<close>, it stays paused. A pass of the coordinator in a paused state admits nothing
  from the queue and leaves the queue as it is, while it starts every job of
  \<open>force_start\<close>. After \<^verbatim>\<open>resume\<close>, the pass admits the queued job.
\<close>

theorem paused_until_resume:
  "paused MainLoop_init \<and> max_threads MainLoop_init = 1 \<and>
   ((\<forall>x\<in>set xs. x \<noteq> Resume) \<longrightarrow> paused (state_of (exec xs MainLoop_init))) \<and>
   (paused s \<and> run_iteration s = Inr (oc, s') \<longrightarrow>
      oc \<noteq> Admitted j \<and> queue s' = queue s \<and>
      (\<not> shutdown_now s \<longrightarrow>
         running_jobs s' = filter j_alive (running_jobs s) @
           map (\<lambda>j. j\<lparr>j_alive := True\<rparr>) (force_start s))) \<and>
   run_iteration (resume (enqueue a tms MainLoop_init)) =
     Inr (Admitted (create_job a tms),
          start_job (create_job a tms) (resume MainLoop_init))"
proof -
  have i: "paused MainLoop_init \<and> max_threads MainLoop_init = 1"
    by (simp add: MainLoop_init_def)
  have t: "paused (state_of (exec xs MainLoop_init))" if "\<forall>x\<in>set xs. x \<noteq> Resume"
    by (rule exec_preserves[where P = paused and A = "\<lambda>x. x \<noteq> Resume", rule_format])
      (use that i step_keeps_paused in auto)
  have r: "run_iteration (resume (enqueue a tms MainLoop_init)) =
     Inr (Admitted (create_job a tms),
          start_job (create_job a tms) (resume MainLoop_init))"
    by (simp add: run_iteration_def update_running_jobs_def resume_def enqueue_def
        MainLoop_init_def get_queue_length_def active_def Let_def)
  from i t r paused_iteration[of s oc s' j] show ?thesis by blast
qed

text \<open>
  C10 on a concrete run without \<^verbatim>\<open>resume\<close>, and on the paused state with A queued and
  B waiting in \<open>force_start\<close>: B is started, A stays queued.
\<close>

theorem paused_until_resume_witness:
  "paused (state_of (exec [Enqueue act_A 1, Iterate, PriorityEnqueue act_B True 1, Iterate]
     MainLoop_init)) \<and>
   run_iteration st_paused_AB =
     Inr (Waiting, st_paused_AB\<lparr>force_start := [],
       running_jobs := [(create_job act_B 1)\<lparr>j_alive := True\<rparr>],
       events := [JobStarted act_B]\<rparr>) \<and>
   queue st_paused_AB = [create_job act_A 1]"
proof -
  have h1: "\<forall>x\<in>set [Enqueue act_A 1, Iterate, PriorityEnqueue act_B True 1, Iterate].
              x \<noteq> Resume"
    by simp
  have h2: "paused st_paused_AB"
    by (simp add: st_paused_AB_def eval_defs)
  have h3: "run_iteration st_paused_AB =
     Inr (Waiting, st_paused_AB\<lparr>force_start := [],
       running_jobs := [(create_job act_B 1)\<lparr>j_alive := True\<rparr>],
       events := [JobStarted act_B]\<rparr>)"
    by (simp add: st_paused_AB_def eval_defs)
  have q: "queue st_paused_AB = [create_job act_A 1]"
    by (simp add: st_paused_AB_def eval_defs)
  note inst = paused_until_resume [where
      xs = "[Enqueue act_A 1, Iterate, PriorityEnqueue act_B True 1, Iterate]"
      and s = st_paused_AB and oc = Waiting
      and s' = "st_paused_AB\<lparr>force_start := [],
       running_jobs := [(create_job act_B 1)\<lparr>j_alive := True\<rparr>],
       events := [JobStarted act_B]\<rparr>"]
  have p: "paused (state_of (exec [Enqueue act_A 1, Iterate, PriorityEnqueue act_B True 1, Iterate]
     MainLoop_init))"
    using inst [THEN conjunct2, THEN conjunct2, THEN conjunct1, THEN mp, OF h1] .
  have "queue (st_paused_AB\<lparr>force_start := [],
       running_jobs := [(create_job act_B 1)\<lparr>j_alive := True\<rparr>],
       events := [JobStarted act_B]\<rparr>) = queue st_paused_AB"
    using inst [THEN conjunct2, THEN conjunct2, THEN conjunct2, THEN conjunct1, THEN mp,
        OF conjI [OF h2 h3], THEN conjunct2, THEN conjunct1] .
  with p h3 q show ?thesis by simp
qed

end
